theory Spec2Isabelle
  imports Complex_Main
begin

section \<open>JavaScript numbers\<close>

text \<open>
  The client computes with JavaScript numbers.  A finite number is modelled as a decimal
  \<open>Fin m k\<close>, standing for \<open>m / 10^k\<close>: quantities reach the client as the decimal numerals
  of a JSON document, and every finite IEEE double is such a decimal.  Arithmetic on the
  decimals is exact (the binary rounding of doubles is not modelled).  The special values
  \<open>NaN\<close>, \<open>+Infinity\<close>, \<open>-Infinity\<close> and the negative zero are values of their own; the
  positive zero is \<open>Fin 0 k\<close>.
\<close>

datatype jsnum = NaN | PInf | NInf | NegZero | Fin int nat

fun val :: "jsnum \<Rightarrow> rat" where
  "val (Fin m k) = of_int m / 10 ^ k"
| "val _ = 0"

text \<open>\<open>Number.isFinite\<close>.\<close>

fun isFinite :: "jsnum \<Rightarrow> bool" where
  "isFinite NaN = False"
| "isFinite PInf = False"
| "isFinite NInf = False"
| "isFinite _ = True"

text \<open>The comparisons \<open><\<close>, \<open>===\<close>, \<open><=\<close>, \<open>>=\<close>: false as soon as one side is \<open>NaN\<close>.\<close>

fun js_lt :: "jsnum \<Rightarrow> jsnum \<Rightarrow> bool" where
  "js_lt NaN _ = False"
| "js_lt _ NaN = False"
| "js_lt _ NInf = False"
| "js_lt NInf _ = True"
| "js_lt PInf _ = False"
| "js_lt _ PInf = True"
| "js_lt a b = (val a < val b)"

fun js_eq :: "jsnum \<Rightarrow> jsnum \<Rightarrow> bool" where
  "js_eq NaN _ = False"
| "js_eq _ NaN = False"
| "js_eq PInf b = (b = PInf)"
| "js_eq a PInf = False"
| "js_eq NInf b = (b = NInf)"
| "js_eq a NInf = False"
| "js_eq a b = (val a = val b)"

definition js_le :: "jsnum \<Rightarrow> jsnum \<Rightarrow> bool" where
  "js_le a b = (js_lt a b \<or> js_eq a b)"

definition js_ge :: "jsnum \<Rightarrow> jsnum \<Rightarrow> bool" where
  "js_ge a b = js_le b a"

definition js_gt :: "jsnum \<Rightarrow> jsnum \<Rightarrow> bool" where
  "js_gt a b = js_lt b a"

text \<open>Subtraction.  An exact zero difference is \<open>+0\<close>, except for \<open>(-0) - (+0)\<close>.\<close>

fun js_sub :: "jsnum \<Rightarrow> jsnum \<Rightarrow> jsnum" where
  "js_sub NaN _ = NaN"
| "js_sub _ NaN = NaN"
| "js_sub PInf PInf = NaN"
| "js_sub NInf NInf = NaN"
| "js_sub PInf _ = PInf"
| "js_sub NInf _ = NInf"
| "js_sub _ PInf = NInf"
| "js_sub _ NInf = PInf"
| "js_sub NegZero NegZero = Fin 0 0"
| "js_sub NegZero (Fin b k) = (if b = 0 then NegZero else Fin (- b) k)"
| "js_sub (Fin a j) NegZero = Fin a j"
| "js_sub (Fin a j) (Fin b k) =
     Fin (a * 10 ^ (max j k - j) - b * 10 ^ (max j k - k)) (max j k)"

text \<open>\<open>Math.abs\<close>.\<close>

fun js_abs :: "jsnum \<Rightarrow> jsnum" where
  "js_abs NaN = NaN"
| "js_abs PInf = PInf"
| "js_abs NInf = PInf"
| "js_abs NegZero = Fin 0 0"
| "js_abs (Fin m k) = Fin \<bar>m\<bar> k"

text \<open>
  Truthiness of a number, and the idiom \<open>Number(x || 0)\<close> on a field that holds a number or
  is missing (\<open>null\<close> or \<open>undefined\<close>, here \<open>None\<close>): zero, negative zero, \<open>NaN\<close> and a
  missing field all give \<open>0\<close>.
\<close>

fun truthy :: "jsnum \<Rightarrow> bool" where
  "truthy NaN = False"
| "truthy NegZero = False"
| "truthy (Fin m k) = (m \<noteq> 0)"
| "truthy _ = True"

definition num_or0 :: "jsnum option \<Rightarrow> jsnum" where
  "num_or0 x = (case x of None \<Rightarrow> Fin 0 0 | Some n \<Rightarrow> if truthy n then n else Fin 0 0)"

text \<open>The constants \<open>EPS = 1e-9\<close> and the literal \<open>1e-6\<close>.\<close>

definition EPS :: jsnum where
  "EPS = Fin 1 9"

definition tol6 :: jsnum where
  "tol6 = Fin 1 6"

section \<open>Data model\<close>

text \<open>
  The records the backend sends.  A field that may be missing is an option; identifiers are
  natural numbers (\<open>0\<close> is the one falsy identifier).
\<close>

record order =
  oid :: nat
  number :: "string option"
  total_qty :: "jsnum option"
  collected_qty :: "jsnum option"
  progress_pct :: "jsnum option"
  customer_name :: "string option"
  urgency_text :: "string option"
  ship_deadline :: "string option"
  comment :: "string option"
  column :: "string option"

record line =
  lid :: nat
  qty_ordered :: "jsnum option"
  qty_collected :: "jsnum option"
  baseline_qty_ordered :: "jsnum option"
  is_added :: bool
  is_removed :: bool
  item_name :: string
  unit_name :: "string option"
  sort_index :: "int option"

text \<open>
  An entry \<open>{order, lines}\<close> of the board cache, the same shape as the order detail; the
  answer \<open>{order, line, order_completed_now}\<close> to a line patch; the configuration object.
\<close>

record wrapper =
  w_order :: "order option"
  w_lines :: "line list"

record patch_data =
  d_order :: order
  d_line :: line
  order_completed_now :: bool

type_synonym config = "(string \<times> string) list"

text \<open>
  The client state: the five fields of the object \<open>state\<close> of the source, then what the
  browser holds for it: the interval timers that are live (\<open>setInterval\<close> adds one and
  returns its handle, a positive number; \<open>clearInterval\<close> removes it), the last handle
  handed out, and the \<open>hidden\<close> class of the three views.  Form fields, buttons and the
  completion overlay are not modelled.
\<close>

record state =
  config :: "config option"
  orders :: "wrapper list"
  orderDetail :: "wrapper option"
  activeOrderId :: "nat option"
  pollTimer :: "nat option"
  intervals :: "nat list"
  lastHandle :: nat
  loginView_hidden :: bool
  appView_hidden :: bool
  orderView_hidden :: bool

text \<open>
  An HTTP response with its parsed body; \<open>res.ok\<close>; the errors thrown: the two of the
  request layer, and the \<open>RangeError\<close> of \<open>toFixed\<close> for a digit count above \<open>100\<close>.
\<close>

record 'a res =
  status :: nat
  body :: 'a

definition ok :: "'a res \<Rightarrow> bool" where
  "ok r = (200 \<le> status r \<and> status r \<le> 299)"

datatype error = Unauthorized | Failed | RangeError

section \<open>Classifiers\<close>

text \<open>
  \<^verbatim>\<open>
  function isLineDone(line) {
    const ordered = Number(line.qty_ordered || 0);
    const collected = Number(line.qty_collected || 0);
    if (ordered <= EPS) return true;
    return collected >= ordered - 1e-6;
  }
  function isOrderDone(order) {
    const total = Number(order.total_qty || 0);
    const collected = Number(order.collected_qty || 0);
    if (total <= EPS) return false;
    return collected >= total - 1e-6;
  }
  \<close>
\<close>

definition isLineDone :: "line \<Rightarrow> bool" where
  "isLineDone l =
     (let ordered = num_or0 (qty_ordered l);
          collected = num_or0 (qty_collected l)
      in if js_le ordered EPS then True
         else js_ge collected (js_sub ordered tol6))"



section \<open>Numerals\<close>

text \<open>
  The step functions read the decimal numeral of a number: \<open>String(q)\<close>, \<open>q.toFixed(f)\<close>,
  \<open>parseInt\<close> and \<open>Number\<close> of a string.  Strings are lists of characters.

  \<open>digits n\<close> is the decimal numeral of a natural number, \<open>parse_nat\<close> reads one back.
\<close>

definition digit_char :: "nat \<Rightarrow> char" where
  "digit_char d = ''0123456789'' ! d"

definition is_digit :: "char \<Rightarrow> bool" where
  "is_digit c = (c \<in> set ''0123456789'')"

definition digit_val :: "char \<Rightarrow> nat" where
  "digit_val c = length (takeWhile (\<lambda>d. d \<noteq> c) ''0123456789'')"

fun digits :: "nat \<Rightarrow> string" where
  "digits n = (if n < 10 then [digit_char n] else digits (n div 10) @ [digit_char (n mod 10)])"

declare digits.simps [simp del]

definition parse_nat :: "string \<Rightarrow> nat" where
  "parse_nat s = foldl (\<lambda>a c. 10 * a + digit_val c) 0 s"

text \<open>
  \<open>s.replace(/0+$/, '')\<close> removes the trailing zeros; \<open>s.split(sep)[1]\<close> is the piece
  between the first and the second separator (the source asks for it only when the
  separator occurs).
\<close>

definition stripZeros :: "string \<Rightarrow> string" where
  "stripZeros s = rev (dropWhile (\<lambda>c. c = CHR ''0'') (rev s))"

definition split1 :: "(char \<Rightarrow> bool) \<Rightarrow> string \<Rightarrow> string" where
  "split1 sep s = takeWhile (\<lambda>c. \<not> sep c) (tl (dropWhile (\<lambda>c. \<not> sep c) s))"

text \<open>
  \<open>String(x)\<close> on a number, after \<open>Number::toString\<close> of ECMAScript.  For a positive
  \<open>m / 10^k\<close> the digit string \<open>s\<close> is the numeral of \<open>m\<close> without its trailing zeros and
  \<open>n\<close> places the decimal point (\<open>m / 10^k = 0.s * 10^n\<close>); the four forms are the integer
  numeral, the numeral with a point inside, the numeral \<open>0.0...0s\<close>, and the exponent form
  outside \<open>1e-6 .. 1e21\<close>.
\<close>

definition toString_pos :: "nat \<Rightarrow> nat \<Rightarrow> string" where
  "toString_pos m k =
     (let ds = digits m;
          n = int (length ds) - int k;
          s = stripZeros ds;
          kk = int (length s)
      in if kk \<le> n \<and> n \<le> 21 then s @ replicate (nat (n - kk)) CHR ''0''
         else if 0 < n \<and> n \<le> 21 then take (nat n) s @ ''.'' @ drop (nat n) s
         else if - 6 < n \<and> n \<le> 0 then ''0.'' @ replicate (nat (- n)) CHR ''0'' @ s
         else (if kk = 1 then s else hd s # ''.'' @ tl s)
              @ ''e'' @ (if 0 \<le> n - 1 then ''+'' else ''-'') @ digits (nat \<bar>n - 1\<bar>))"

fun toString :: "jsnum \<Rightarrow> string" where
  "toString NaN = ''NaN''"
| "toString PInf = ''Infinity''"
| "toString NInf = ''-Infinity''"
| "toString NegZero = ''0''"
| "toString (Fin m k) =
     (if m = 0 then ''0''
      else if m < 0 then ''-'' @ toString_pos (nat (- m)) k
      else toString_pos (nat m) k)"





definition parseInt :: "string \<Rightarrow> jsnum" where
  "parseInt s =
     (let neg = (s \<noteq> [] \<and> hd s = CHR ''-'');
          u = (if s \<noteq> [] \<and> (hd s = CHR ''-'' \<or> hd s = CHR ''+'') then tl s else s);
          ds = takeWhile is_digit u
      in if ds = [] then NaN
         else if neg then (if parse_nat ds = 0 then NegZero else Fin (- int (parse_nat ds)) 0)
         else Fin (int (parse_nat ds)) 0)"


text \<open>
  \<open>Math.round\<close> (the floor of \<open>x + 1/2\<close>, \<open>-0\<close> for a negative argument that rounds to
  zero), \<open>Math.min\<close> and \<open>Math.max\<close> (\<open>NaN\<close> as soon as one argument is, and \<open>-0\<close> below
  \<open>+0\<close>).
\<close>

fun Math_round :: "jsnum \<Rightarrow> jsnum" where
  "Math_round (Fin m k) =
     (let r = (2 * m + 10 ^ k) div (2 * 10 ^ k)
      in if r = 0 \<and> m < 0 then NegZero else Fin r 0)"
| "Math_round x = x"



section \<open>Quantity steps\<close>

text \<open>
  \<^verbatim>\<open>
  function stepDecimals(step) {
    const s = String(step);
    if (s.includes('e') || s.includes('E')) {
      const exp = parseInt(s.split(/e/i)[1], 10);
      return exp < 0 ? -exp : 0;
    }
    if (!s.includes('.')) return 0;
    return s.split('.')[1].length;
  }
  \<close>
  \<open>is_e\<close> is the separator \<open>/e/i\<close>.  A result of \<open>parseInt\<close> that is not below zero, \<open>NaN\<close>
  too, gives \<open>0\<close>.
\<close>

definition is_e :: "char \<Rightarrow> bool" where
  "is_e c = (c = CHR ''e'' \<or> c = CHR ''E'')"



text \<open>
  The revision \<open>static/app.js\<close> of the same function ends differently:
  \<^verbatim>\<open>
    const s = String(q);
    if (s.includes('e') || s.includes('E')) {
      const exp = parseInt(s.split(/e/i)[1], 10);
      if (Number.isFinite(exp) && exp < 0) return Math.pow(10, exp);
      return 1;
    }
    if (!s.includes('.')) return 1;
    const decimals = s.split('.')[1].length;
    return Math.pow(10, -decimals);
  \<close>
\<close>

definition inferStep_static :: "jsnum \<Rightarrow> jsnum" where
  "inferStep_static q =
     (if \<not> isFinite q \<or> js_le q (Fin 0 0) then Fin 1 0
      else if js_lt (js_abs (js_sub q (Math_round q))) (Fin 1 9) then Fin 1 0
      else let s = toString q
           in if CHR ''e'' \<in> set s \<or> CHR ''E'' \<in> set s then
                (case parseInt (split1 is_e s) of
                   Fin e k \<Rightarrow> if e < 0 then Fin 1 (nat (- e)) else Fin 1 0
                 | _ \<Rightarrow> Fin 1 0)
              else if CHR ''.'' \<notin> set s then Fin 1 0
              else Fin 1 (length (split1 (\<lambda>c. c = CHR ''.'') s)))"


section \<open>Reconciliation store\<close>

text \<open>
  \<open>Array.prototype.findIndex\<close>: the first index whose element satisfies the callback;
  \<open>None\<close> stands for the result \<open>-1\<close>.
\<close>

fun findIndex :: "('a \<Rightarrow> bool) \<Rightarrow> 'a list \<Rightarrow> nat option" where
  "findIndex P [] = None"
| "findIndex P (x # xs) = (if P x then Some 0 else map_option Suc (findIndex P xs))"

text \<open>The callback \<^verbatim>\<open>(w) => w.order && w.order.id === data.order.id\<close>.\<close>

definition has_oid :: "nat \<Rightarrow> wrapper \<Rightarrow> bool" where
  "has_oid i w = (case w_order w of None \<Rightarrow> False | Some ord \<Rightarrow> oid ord = i)"

text \<open>
  The block of \<open>patchLine\<close> that merges the answer \<open>data\<close> into the local state:
  \<^verbatim>\<open>
  if (state.orderDetail) {
    state.orderDetail.order = data.order;
    const idx = state.orderDetail.lines.findIndex((l) => l.id === data.line.id);
    if (idx >= 0) {
      state.orderDetail.lines[idx] = data.line;
    }
  }
  const wIdx = state.orders.findIndex((w) => w.order && w.order.id === data.order.id);
  if (wIdx >= 0) {
    state.orders[wIdx].order = data.order;
    const lIdx = state.orders[wIdx].lines.findIndex((l) => l.id === data.line.id);
    if (lIdx >= 0) state.orders[wIdx].lines[lIdx] = data.line;
  }
  \<close>
\<close>

definition patchLine_store :: "state \<Rightarrow> patch_data \<Rightarrow> state" where
  "patchLine_store st data =
     (let st1 =
        (case orderDetail st of
           None \<Rightarrow> st
         | Some od \<Rightarrow>
             let od1 = od\<lparr>w_order := Some (d_order data)\<rparr>
             in (case findIndex (\<lambda>l. lid l = lid (d_line data)) (w_lines od1) of
                   None \<Rightarrow> st\<lparr>orderDetail := Some od1\<rparr>
                 | Some idx \<Rightarrow>
                     st\<lparr>orderDetail :=
                       Some (od1\<lparr>w_lines := (w_lines od1)[idx := d_line data]\<rparr>)\<rparr>))
      in case findIndex (has_oid (oid (d_order data))) (orders st1) of
           None \<Rightarrow> st1
         | Some wIdx \<Rightarrow>
             let w1 = (orders st1 ! wIdx)\<lparr>w_order := Some (d_order data)\<rparr>
             in (case findIndex (\<lambda>l. lid l = lid (d_line data)) (w_lines w1) of
                   None \<Rightarrow> st1\<lparr>orders := (orders st1)[wIdx := w1]\<rparr>
                 | Some lIdx \<Rightarrow>
                     st1\<lparr>orders := (orders st1)
                       [wIdx := w1\<lparr>w_lines := (w_lines w1)[lIdx := d_line data]\<rparr>]\<rparr>))"

text \<open>
  The merge of \<open>completeOrder\<close>, run when the answer carries an order:
  \<^verbatim>\<open>
  state.orderDetail.order = data.order;
  const wIdx = state.orders.findIndex((w) => w.order && w.order.id === data.order.id);
  if (wIdx >= 0) {
    state.orders[wIdx].order = data.order;
  }
  \<close>
  When the order view was closed in the meantime, \<open>state.orderDetail\<close> is \<open>null\<close>, the
  first assignment throws, the surrounding \<open>catch\<close> swallows the error and nothing is
  changed.
\<close>

definition completeOrder_store :: "state \<Rightarrow> order \<Rightarrow> state" where
  "completeOrder_store st ord =
     (case orderDetail st of
        None \<Rightarrow> st
      | Some od \<Rightarrow>
          let st1 = st\<lparr>orderDetail := Some (od\<lparr>w_order := Some ord\<rparr>)\<rparr>
          in (case findIndex (has_oid (oid ord)) (orders st1) of
                None \<Rightarrow> st1
              | Some wIdx \<Rightarrow>
                  st1\<lparr>orders := (orders st1)[wIdx := (orders st1 ! wIdx)\<lparr>w_order := Some ord\<rparr>]\<rparr>))"

section \<open>Sync controller\<close>

text \<open>
  The object \<open>state\<close> as the script creates it.
\<close>

definition state0 :: state where
  "state0 = \<lparr>config = None, orders = [], orderDetail = None, activeOrderId = None,
     pollTimer = None, intervals = [], lastHandle = 0,
     loginView_hidden = False, appView_hidden = False, orderView_hidden = False\<rparr>"

text \<open>
  \<^verbatim>\<open>
  function startPolling() {
    stopPolling();
    state.pollTimer = setInterval(async () => {
      if (!state.activeOrderId) {
        try { await loadOrders(); } catch (_) { }
      }
    }, POLL_INTERVAL_MS);
  }
  function stopPolling() {
    if (state.pollTimer) {
      clearInterval(state.pollTimer);
      state.pollTimer = null;
    }
  }
  \<close>
  \<open>pollTick\<close> is the callback of the timer: it returns the state, which it leaves as it is,
  and the requests it sends.  The test \<open>!state.activeOrderId\<close> holds for \<open>null\<close> and for
  the identifier \<open>0\<close>.
\<close>

datatype request = GET_orders

definition stopPolling :: "state \<Rightarrow> state" where
  "stopPolling st =
     (case pollTimer st of
        None \<Rightarrow> st
      | Some h \<Rightarrow>
          if h \<noteq> 0 then st\<lparr>intervals := removeAll h (intervals st), pollTimer := None\<rparr>
          else st)"

definition startPolling :: "state \<Rightarrow> state" where
  "startPolling st =
     (let st1 = stopPolling st; h = Suc (lastHandle st1)
      in st1\<lparr>intervals := h # intervals st1, lastHandle := h, pollTimer := Some h\<rparr>)"

definition pollTick :: "state \<Rightarrow> state \<times> request list" where
  "pollTick st =
     (case activeOrderId st of
        None \<Rightarrow> (st, [GET_orders])
      | Some i \<Rightarrow> if i = 0 then (st, [GET_orders]) else (st, []))"

text \<open>
  \<^verbatim>\<open>
  function logout() {
    state.config = null;
    state.orders = [];
    state.orderDetail = null;
    state.activeOrderId = null;
    stopPolling();
    hide(appView);
    hide(orderView);
    show(loginView);
    ...
  }
  async function apiFetch(path, options = {}) {
    ...
    const res = await fetch(path, opts);
    if (res.status === 401) {
      logout();
      throw new Error('Unauthorized');
    }
    return res;
  }
  \<close>
  An asynchronous function that awaits one request is modelled by what it does when the
  response arrives: it takes the state of that moment and the response, and returns the new
  state and either the error it throws or its result.
\<close>

definition logout :: "state \<Rightarrow> state" where
  "logout st =
     (let st1 = stopPolling
            (st\<lparr>config := None, orders := [], orderDetail := None, activeOrderId := None\<rparr>)
      in st1\<lparr>appView_hidden := True, orderView_hidden := True, loginView_hidden := False\<rparr>)"

definition apiFetch :: "state \<Rightarrow> 'a res \<Rightarrow> state \<times> (error + 'a res)" where
  "apiFetch st r = (if status r = 401 then (logout st, Inl Unauthorized) else (st, Inr r))"

text \<open>
  The functions of the API layer.  \<open>loadConfig\<close> does not test \<open>res.ok\<close>; the others throw
  on a response that is not a success.
\<close>

definition loadConfig :: "state \<Rightarrow> config res \<Rightarrow> state \<times> (error + unit)" where
  "loadConfig st r =
     (case apiFetch st r of
        (st1, Inl e) \<Rightarrow> (st1, Inl e)
      | (st1, Inr r1) \<Rightarrow> (st1\<lparr>config := Some (body r1)\<rparr>, Inr ()))"

definition syncNow :: "state \<Rightarrow> 'a res \<Rightarrow> state \<times> (error + 'a)" where
  "syncNow st r =
     (case apiFetch st r of
        (st1, Inl e) \<Rightarrow> (st1, Inl e)
      | (st1, Inr r1) \<Rightarrow> if \<not> ok r1 then (st1, Inl Failed) else (st1, Inr (body r1)))"

definition loadOrders :: "state \<Rightarrow> wrapper list res \<Rightarrow> state \<times> (error + unit)" where
  "loadOrders st r =
     (case apiFetch st r of
        (st1, Inl e) \<Rightarrow> (st1, Inl e)
      | (st1, Inr r1) \<Rightarrow>
          if \<not> ok r1 then (st1, Inl Failed) else (st1\<lparr>orders := body r1\<rparr>, Inr ()))"

definition loadOrderDetail :: "state \<Rightarrow> nat \<Rightarrow> wrapper res \<Rightarrow> state \<times> (error + unit)" where
  "loadOrderDetail st orderId r =
     (case apiFetch st r of
        (st1, Inl e) \<Rightarrow> (st1, Inl e)
      | (st1, Inr r1) \<Rightarrow>
          if \<not> ok r1 then (st1, Inl Failed)
          else (st1\<lparr>orderDetail := Some (body r1), activeOrderId := Some orderId\<rparr>, Inr ()))"

definition patchLine :: "state \<Rightarrow> patch_data res \<Rightarrow> state \<times> (error + patch_data)" where
  "patchLine st r =
     (case apiFetch st r of
        (st1, Inl e) \<Rightarrow> (st1, Inl e)
      | (st1, Inr r1) \<Rightarrow>
          if \<not> ok r1 then (st1, Inl Failed)
          else (patchLine_store st1 (body r1), Inr (body r1)))"

text \<open>
  \<open>completeOrder\<close> catches every error.  Its answer carries an order or not (the test
  \<open>data && data.order\<close>).
\<close>

definition completeOrder :: "state \<Rightarrow> order option res \<Rightarrow> state" where
  "completeOrder st r =
     (case apiFetch st r of
        (st1, Inl e) \<Rightarrow> st1
      | (st1, Inr r1) \<Rightarrow>
          if \<not> ok r1 then st1
          else (case body r1 of None \<Rightarrow> st1 | Some ord \<Rightarrow> completeOrder_store st1 ord))"

text \<open>
  \<^verbatim>\<open>
  function closeOrderView() {
    state.activeOrderId = null;
    state.orderDetail = null;
    hide(orderView);
    show(appView);
    ...
    startPolling();
  }
  \<close>
\<close>

definition closeOrderView :: "state \<Rightarrow> state" where
  "closeOrderView st =
     startPolling (st\<lparr>activeOrderId := None, orderDetail := None,
        orderView_hidden := True, appView_hidden := False\<rparr>)"

text \<open>
  \<open>openOrder\<close> in its three parts: up to the first request (\<open>stopPolling()\<close>), the
  answer to the notification that the order was opened (errors are caught), and the load of
  the detail, after which the order view is shown.
\<close>

definition openOrder_start :: "state \<Rightarrow> state" where
  "openOrder_start st = stopPolling st"

definition openOrder_opened :: "state \<Rightarrow> order option res \<Rightarrow> state" where
  "openOrder_opened st r =
     (case apiFetch st r of
        (st1, Inl e) \<Rightarrow> st1
      | (st1, Inr r1) \<Rightarrow>
          if \<not> ok r1 then st1
          else (case body r1 of
                  None \<Rightarrow> st1
                | Some ord \<Rightarrow>
                    (case findIndex (has_oid (oid ord)) (orders st1) of
                       None \<Rightarrow> st1
                     | Some wIdx \<Rightarrow>
                         st1\<lparr>orders := (orders st1)
                           [wIdx := (orders st1 ! wIdx)\<lparr>w_order := Some ord\<rparr>]\<rparr>)))"

definition openOrder_loaded :: "state \<Rightarrow> nat \<Rightarrow> wrapper res \<Rightarrow> state \<times> (error + unit)" where
  "openOrder_loaded st orderId r =
     (case loadOrderDetail st orderId r of
        (st1, Inl e) \<Rightarrow> (st1, Inl e)
      | (st1, Inr u) \<Rightarrow> (st1\<lparr>appView_hidden := True, orderView_hidden := False\<rparr>, Inr ()))"

text \<open>
  \<open>bootApp\<close> after the configuration and after the first list of orders arrived; an error
  in either part ends in \<open>logout()\<close>.
\<close>

definition bootApp_config :: "state \<Rightarrow> config res \<Rightarrow> state" where
  "bootApp_config st r =
     (case loadConfig st r of
        (st1, Inl e) \<Rightarrow> logout st1
      | (st1, Inr u) \<Rightarrow> st1\<lparr>appView_hidden := False, loginView_hidden := True\<rparr>)"

definition bootApp_orders :: "state \<Rightarrow> wrapper list res \<Rightarrow> state" where
  "bootApp_orders st r =
     (case loadOrders st r of
        (st1, Inl e) \<Rightarrow> logout st1
      | (st1, Inr u) \<Rightarrow> startPolling st1)"

text \<open>
  The states the client can reach.  The script ends with \<open>logout()\<close>.  After that, every
  step is one of the parts above, run on any response: a part may run at any moment, so
  every interleaving of the handlers of the source is among these runs.  The timeout that
  follows a completed order runs \<open>closeOrderView\<close> and then loads the orders; manual refresh
  and the background sync run \<open>syncNow\<close> and \<open>loadOrders\<close>.
\<close>

inductive_set reach :: "state set" where
  init: "logout state0 \<in> reach"
| do_logout: "st \<in> reach \<Longrightarrow> logout st \<in> reach"
| do_bootApp_config: "st \<in> reach \<Longrightarrow> bootApp_config st rc \<in> reach"
| do_bootApp_orders: "st \<in> reach \<Longrightarrow> bootApp_orders st ro \<in> reach"
| do_syncNow: "st \<in> reach \<Longrightarrow> fst (syncNow st (rs :: unit res)) \<in> reach"
| do_loadOrders: "st \<in> reach \<Longrightarrow> fst (loadOrders st ro) \<in> reach"
| do_pollTick: "st \<in> reach \<Longrightarrow> fst (pollTick st) \<in> reach"
| do_openOrder_start: "st \<in> reach \<Longrightarrow> openOrder_start st \<in> reach"
| do_openOrder_opened: "st \<in> reach \<Longrightarrow> openOrder_opened st rp \<in> reach"
| do_openOrder_loaded: "st \<in> reach \<Longrightarrow> fst (openOrder_loaded st i rd) \<in> reach"
| do_patchLine: "st \<in> reach \<Longrightarrow> fst (patchLine st rl) \<in> reach"
| do_completeOrder: "st \<in> reach \<Longrightarrow> completeOrder st rp \<in> reach"
| do_closeOrderView: "st \<in> reach \<Longrightarrow> closeOrderView st \<in> reach"

section \<open>Order detail view\<close>

text \<open>
  The children of \<open>orderLinesEl\<close>, one element per line, each with the data attributes
  \<open>lineId\<close>, \<open>sortIndex\<close>, \<open>done\<close> and \<open>group\<close> that the source reads back.
\<close>

datatype group = Incomplete | Complete | Removed

record line_el =
  el_lineId :: nat
  el_sortIndex :: int
  el_done :: bool
  el_group :: group

text \<open>
  \<open>Number(line.sort_index || 0)\<close>, and the group
  \<^verbatim>\<open>line.is_removed ? 'removed' : done ? 'complete' : 'incomplete'\<close>.
\<close>

definition sortIndexOf :: "line \<Rightarrow> int" where
  "sortIndexOf l = (case sort_index l of None \<Rightarrow> 0 | Some n \<Rightarrow> n)"

definition groupOf :: "line \<Rightarrow> bool \<Rightarrow> group" where
  "groupOf l done = (if is_removed l then Removed else if done then Complete else Incomplete)"

text \<open>
  \<open>renderLine\<close> (its data attributes) and \<open>renderOrderDetail\<close>: the lines in three groups,
  incomplete, complete, removed, each sorted by \<open>sort_index\<close> (the sort of an array is stable).
\<close>

definition renderLine :: "line \<Rightarrow> line_el" where
  "renderLine l =
     (let done = isLineDone l
      in \<lparr>el_lineId = lid l, el_sortIndex = sortIndexOf l, el_done = done,
          el_group = groupOf l done\<rparr>)"

definition renderOrderDetail :: "line list \<Rightarrow> line_el list" where
  "renderOrderDetail ls =
     (let incomplete = filter (\<lambda>l. \<not> is_removed l \<and> \<not> isLineDone l) ls;
          complete = filter (\<lambda>l. \<not> is_removed l \<and> isLineDone l) ls;
          removed = filter is_removed ls
      in map renderLine (sort_key sortIndexOf incomplete @ sort_key sortIndexOf complete
           @ sort_key sortIndexOf removed))"

text \<open>
  Moving a child.  \<open>insertBefore els i j\<close> is \<open>orderLinesEl.insertBefore(a, b)\<close> for the
  children \<open>a\<close> at position \<open>i\<close> and \<open>b\<close> at position \<open>j\<close>: \<open>a\<close> leaves its place and
  enters before \<open>b\<close>; a node inserted before itself stays where it is.  \<open>appendChild\<close>
  moves the child to the end.  \<open>querySelector g\<close> is the first child of group \<open>g\<close>.
\<close>

definition remove_at :: "nat \<Rightarrow> 'a list \<Rightarrow> 'a list" where
  "remove_at i xs = take i xs @ drop (Suc i) xs"

definition insert_at :: "nat \<Rightarrow> 'a \<Rightarrow> 'a list \<Rightarrow> 'a list" where
  "insert_at j x xs = take j xs @ x # drop j xs"

definition insertBefore :: "'a list \<Rightarrow> nat \<Rightarrow> nat \<Rightarrow> 'a list" where
  "insertBefore els i j =
     (if i = j then els
      else insert_at (if i < j then j - 1 else j) (els ! i) (remove_at i els))"

definition appendChild :: "'a list \<Rightarrow> nat \<Rightarrow> 'a list" where
  "appendChild els i = remove_at i els @ [els ! i]"

definition querySelector :: "group \<Rightarrow> line_el list \<Rightarrow> nat option" where
  "querySelector g els = findIndex (\<lambda>e. el_group e = g) els"

text \<open>
  \<^verbatim>\<open>
  function moveLineToCompleteEnd(lineEl) {
    const removedEl = orderLinesEl.querySelector('.line[data-group="removed"]');
    if (removedEl) {
      orderLinesEl.insertBefore(lineEl, removedEl);
    } else {
      orderLinesEl.appendChild(lineEl);
    }
  }
  function moveLineToIncompletePosition(lineEl) {
    const sortIndex = Number(lineEl.dataset.sortIndex || 0);
    const incompletes = Array.from(orderLinesEl.querySelectorAll('.line[data-group="incomplete"]'))
      .filter((el) => el !== lineEl);
    for (const el of incompletes) {
      const otherIdx = Number(el.dataset.sortIndex || 0);
      if (otherIdx > sortIndex) {
        orderLinesEl.insertBefore(lineEl, el);
        return;
      }
    }
    const firstComplete = orderLinesEl.querySelector('.line[data-group="complete"]');
    if (firstComplete) { orderLinesEl.insertBefore(lineEl, firstComplete); return; }
    const firstRemoved = orderLinesEl.querySelector('.line[data-group="removed"]');
    if (firstRemoved) { orderLinesEl.insertBefore(lineEl, firstRemoved); return; }
    orderLinesEl.appendChild(lineEl);
  }
  \<close>
  A child is named by its position \<open>i\<close>.
\<close>

definition moveLineToCompleteEnd :: "line_el list \<Rightarrow> nat \<Rightarrow> line_el list" where
  "moveLineToCompleteEnd els i =
     (case querySelector Removed els of
        Some r \<Rightarrow> insertBefore els i r
      | None \<Rightarrow> appendChild els i)"

definition moveLineToIncompletePosition :: "line_el list \<Rightarrow> nat \<Rightarrow> line_el list" where
  "moveLineToIncompletePosition els i =
     (let sortIndex = el_sortIndex (els ! i);
          incompletes = filter (\<lambda>(j, e). el_group e = Incomplete \<and> j \<noteq> i) (enumerate 0 els)
      in case find (\<lambda>(j, e). sortIndex < el_sortIndex e) incompletes of
           Some (j, e) \<Rightarrow> insertBefore els i j
         | None \<Rightarrow>
             (case querySelector Complete els of
                Some c \<Rightarrow> insertBefore els i c
              | None \<Rightarrow>
                  (case querySelector Removed els of
                     Some r \<Rightarrow> insertBefore els i r
                   | None \<Rightarrow> appendChild els i)))"

definition moveLineToGroupEnd :: "line_el list \<Rightarrow> nat \<Rightarrow> group \<Rightarrow> line_el list" where
  "moveLineToGroupEnd els i g =
     (case g of
        Removed \<Rightarrow> appendChild els i
      | Complete \<Rightarrow> moveLineToCompleteEnd els i
      | Incomplete \<Rightarrow> moveLineToIncompletePosition els i)"

text \<open>
  \<open>updateLineUI\<close>: the first child with the line's id gets the new attributes and is moved:
  \<^verbatim>\<open>
  const wasDone = el.dataset.done === '1';
  const nowDone = isLineDone(line);
  el.dataset.done = nowDone ? '1' : '0';
  el.dataset.sortIndex = String(line.sort_index || 0);
  ...
  const prevGroup = el.dataset.group || 'incomplete';
  const nextGroup = line.is_removed ? 'removed' : nowDone ? 'complete' : 'incomplete';
  el.dataset.group = nextGroup;
  if (!wasDone && nowDone) {
    moveLineToCompleteEnd(el);
  } else if (wasDone && !nowDone) {
    moveLineToIncompletePosition(el);
  } else if (prevGroup !== nextGroup) {
    moveLineToGroupEnd(el, nextGroup);
  }
  \<close>
\<close>

definition updateLineUI :: "line_el list \<Rightarrow> line \<Rightarrow> line_el list" where
  "updateLineUI els l =
     (case findIndex (\<lambda>e. el_lineId e = lid l) els of
        None \<Rightarrow> els
      | Some i \<Rightarrow>
          let el = els ! i;
              wasDone = el_done el;
              nowDone = isLineDone l;
              prevGroup = el_group el;
              nextGroup = groupOf l nowDone;
              els1 = els[i := el\<lparr>el_done := nowDone, el_sortIndex := sortIndexOf l,
                                el_group := nextGroup\<rparr>]
          in if \<not> wasDone \<and> nowDone then moveLineToCompleteEnd els1 i
             else if wasDone \<and> \<not> nowDone then moveLineToIncompletePosition els1 i
             else if prevGroup \<noteq> nextGroup then moveLineToGroupEnd els1 i nextGroup
             else els1)"

section \<open>Predicates of the statements\<close>



text \<open>Replacing the first line with the id of \<open>l\<close>, as the store does it in three places.\<close>

definition put_line :: "line \<Rightarrow> line list \<Rightarrow> line list" where
  "put_line l ls = (case findIndex (\<lambda>x. lid x = lid l) ls of None \<Rightarrow> ls | Some i \<Rightarrow> ls[i := l])"

text \<open>
  The live timers are exactly the one in \<open>state.pollTimer\<close>, if any, and its handle is
  one that \<open>setInterval\<close> handed out.
\<close>

definition timers_ok :: "state \<Rightarrow> bool" where
  "timers_ok st =
     (case pollTimer st of
        None \<Rightarrow> intervals st = []
      | Some h \<Rightarrow> intervals st = [h] \<and> 0 < h \<and> h \<le> lastHandle st)"

text \<open>The session is torn down: nothing cached, no timer, the login view shown.\<close>

definition torn_down :: "state \<Rightarrow> bool" where
  "torn_down st =
     (config st = None \<and> orders st = [] \<and> orderDetail st = None \<and> activeOrderId st = None
      \<and> pollTimer st = None \<and> intervals st = []
      \<and> \<not> loginView_hidden st \<and> appView_hidden st \<and> orderView_hidden st)"

text \<open>
  The layout of a rendered list: the groups in the order incomplete, complete, removed, and
  the incomplete lines in ascending order of their sort index.
\<close>

fun rank :: "group \<Rightarrow> nat" where
  "rank Incomplete = 0"
| "rank Complete = 1"
| "rank Removed = 2"

definition layout_ok :: "line_el list \<Rightarrow> bool" where
  "layout_ok els =
     (sorted (map (\<lambda>e. rank (el_group e)) els)
      \<and> sorted (map el_sortIndex (filter (\<lambda>e. el_group e = Incomplete) els)))"


section \<open>Auxiliary definitions for the steps\<close>





definition clampv :: "jsnum \<Rightarrow> rat \<Rightarrow> rat" where
  "clampv mx x =
     (case mx of NaN \<Rightarrow> x | PInf \<Rightarrow> max 0 x | NInf \<Rightarrow> 0 | _ \<Rightarrow> max 0 (min x (val mx)))"

section \<open>Example records\<close>

text \<open>The objects \<open>{}\<close>: every optional field missing, every flag false.\<close>

definition no_order :: order where
  "no_order = \<lparr>oid = 0, number = None, total_qty = None, collected_qty = None,
     progress_pct = None, customer_name = None, urgency_text = None, ship_deadline = None,
     comment = None, column = None\<rparr>"

definition no_line :: line where
  "no_line = \<lparr>lid = 0, qty_ordered = None, qty_collected = None,
     baseline_qty_ordered = None, is_added = False, is_removed = False, item_name = [],
     unit_name = None, sort_index = None\<rparr>"

text \<open>Two lines, two orders, a board, an open order and the answer to a line patch.\<close>

definition ex_line1 :: line where
  "ex_line1 = no_line\<lparr>lid := 1, qty_ordered := Some (Fin 5 0), qty_collected := Some (Fin 3 0),
     sort_index := Some 1\<rparr>"

definition ex_line2 :: line where
  "ex_line2 = no_line\<lparr>lid := 2, qty_ordered := Some (Fin 5 0), qty_collected := Some (Fin 5 0),
     sort_index := Some 2\<rparr>"

definition ex_order1 :: order where
  "ex_order1 = no_order\<lparr>oid := 1, total_qty := Some (Fin 10 0), collected_qty := Some (Fin 8 0)\<rparr>"

definition ex_order2 :: order where
  "ex_order2 = no_order\<lparr>oid := 2, total_qty := Some (Fin 4 0), collected_qty := Some (Fin 0 0)\<rparr>"

definition ex_board :: "wrapper list" where
  "ex_board = [\<lparr>w_order = Some ex_order1, w_lines = [ex_line1, ex_line2]\<rparr>,
               \<lparr>w_order = Some ex_order2, w_lines = [ex_line2]\<rparr>]"

definition ex_state :: state where
  "ex_state = state0\<lparr>orders := ex_board,
     orderDetail := Some \<lparr>w_order = Some ex_order1, w_lines = [ex_line1, ex_line2]\<rparr>,
     activeOrderId := Some 1\<rparr>"

definition ex_patch :: patch_data where
  "ex_patch = \<lparr>d_order = ex_order1\<lparr>collected_qty := Some (Fin 10 0)\<rparr>,
     d_line = ex_line1\<lparr>qty_collected := Some (Fin 5 0)\<rparr>, order_completed_now = True\<rparr>"

text \<open>The client after login: configuration and orders loaded, polling started.\<close>

definition ex_running :: state where
  "ex_running = bootApp_orders
     (bootApp_config (logout state0) \<lparr>status = 200, body = []\<rparr>)
     \<lparr>status = 200, body = ex_board\<rparr>"

text \<open>Four lines of an order: two incomplete, one complete, one removed.\<close>

definition ex_lines :: "line list" where
  "ex_lines =
     [no_line\<lparr>lid := 1, qty_ordered := Some (Fin 5 0), sort_index := Some 3\<rparr>,
      no_line\<lparr>lid := 2, qty_ordered := Some (Fin 5 0), sort_index := Some 1\<rparr>,
      no_line\<lparr>lid := 3, qty_ordered := Some (Fin 5 0), qty_collected := Some (Fin 5 0),
        sort_index := Some 2\<rparr>,
      no_line\<lparr>lid := 4, qty_ordered := Some (Fin 5 0), is_removed := True,
        sort_index := Some 0\<rparr>]"

section \<open>Facts about the number operations\<close>












lemma isFinite_num_or0:
  "(\<And>n. x = Some n \<Longrightarrow> isFinite n) \<Longrightarrow> isFinite (num_or0 x)"
  by (cases x) (simp_all add: num_or0_def)

lemma val_num_or0: "val (num_or0 (Some n)) = val n"
  by (cases n) (simp_all add: num_or0_def)

section \<open>Facts about the store\<close>

lemma findIndex_None: "findIndex P xs = None \<longleftrightarrow> (\<forall>x \<in> set xs. \<not> P x)"
  by (induction xs) auto

lemma findIndex_Some:
  "findIndex P xs = Some i \<Longrightarrow> i < length xs \<and> P (xs ! i) \<and> (\<forall>j < i. \<not> P (xs ! j))"
proof (induction xs arbitrary: i)
  case Nil
  then show ?case by simp
next
  case (Cons x xs)
  show ?case
  proof (cases "P x")
    case True
    with Cons.prems show ?thesis by simp
  next
    case False
    with Cons.prems obtain k where k: "findIndex P xs = Some k" "i = Suc k"
      by auto
    from Cons.IH [OF k(1)] False k(2) show ?thesis
      by (auto simp: less_Suc_eq_0_disj)
  qed
qed

lemma findIndex_iff:
  "findIndex P xs = Some j \<longleftrightarrow> j < length xs \<and> P (xs ! j) \<and> (\<forall>k < j. \<not> P (xs ! k))"
proof
  assume "findIndex P xs = Some j"
  then show "j < length xs \<and> P (xs ! j) \<and> (\<forall>k < j. \<not> P (xs ! k))"
    by (rule findIndex_Some)
next
  assume r: "j < length xs \<and> P (xs ! j) \<and> (\<forall>k < j. \<not> P (xs ! k))"
  then have "xs ! j \<in> set xs" "P (xs ! j)" by simp_all
  then have "findIndex P xs \<noteq> None"
    by (auto simp: findIndex_None)
  then obtain j' where j': "findIndex P xs = Some j'" by auto
  from findIndex_Some [OF j'] r have "\<not> j < j'" "\<not> j' < j" by auto
  with j' show "findIndex P xs = Some j" by simp
qed

lemma length_put_line: "length (put_line l ls) = length ls"
  by (simp add: put_line_def split: option.splits)

lemma nth_put_line:
  "i < length ls \<Longrightarrow> lid (ls ! i) \<noteq> lid l \<Longrightarrow> put_line l ls ! i = ls ! i"
  by (auto simp: put_line_def nth_list_update split: option.splits dest!: findIndex_Some)

lemma patchLine_store_orderDetail:
  "orderDetail (patchLine_store st data) =
     map_option (\<lambda>od. od\<lparr>w_order := Some (d_order data), w_lines := put_line (d_line data) (w_lines od)\<rparr>)
       (orderDetail st)"
  by (simp add: patchLine_store_def put_line_def Let_def split: option.splits)

lemma patchLine_store_orders:
  "orders (patchLine_store st data) =
     (case findIndex (has_oid (oid (d_order data))) (orders st) of
        None \<Rightarrow> orders st
      | Some wIdx \<Rightarrow> (orders st)[wIdx := (orders st ! wIdx)
           \<lparr>w_order := Some (d_order data), w_lines := put_line (d_line data) (w_lines (orders st ! wIdx))\<rparr>])"
  by (simp add: patchLine_store_def put_line_def Let_def split: option.splits)






section \<open>Facts about the controller\<close>

lemma timers_ok_stopPolling:
  "timers_ok st \<Longrightarrow> timers_ok (stopPolling st) \<and> intervals (stopPolling st) = []
     \<and> pollTimer (stopPolling st) = None"
  by (auto simp: timers_ok_def stopPolling_def split: option.splits)

lemma timers_ok_startPolling:
  "timers_ok st \<Longrightarrow> timers_ok (startPolling st)
     \<and> intervals (startPolling st) = [Suc (lastHandle st)]
     \<and> pollTimer (startPolling st) = Some (Suc (lastHandle st))"
  by (auto simp: timers_ok_def startPolling_def stopPolling_def Let_def split: option.splits)

lemma timers_ok_fields:
  "timers_ok (st\<lparr>config := a\<rparr>) = timers_ok st"
  "timers_ok (st\<lparr>orders := b\<rparr>) = timers_ok st"
  "timers_ok (st\<lparr>orderDetail := c\<rparr>) = timers_ok st"
  "timers_ok (st\<lparr>activeOrderId := d\<rparr>) = timers_ok st"
  "timers_ok (st\<lparr>loginView_hidden := e\<rparr>) = timers_ok st"
  "timers_ok (st\<lparr>appView_hidden := f\<rparr>) = timers_ok st"
  "timers_ok (st\<lparr>orderView_hidden := g\<rparr>) = timers_ok st"
  by (simp_all add: timers_ok_def split: option.splits)

lemma timers_ok_logout:
  "timers_ok st \<Longrightarrow> timers_ok (logout st) \<and> intervals (logout st) = []
     \<and> pollTimer (logout st) = None"
  using timers_ok_stopPolling
    [of "st\<lparr>config := None, orders := [], orderDetail := None, activeOrderId := None\<rparr>"]
  by (simp add: logout_def Let_def timers_ok_fields)

lemma timers_ok_apiFetch: "timers_ok st \<Longrightarrow> timers_ok (fst (apiFetch st r))"
  by (simp add: apiFetch_def timers_ok_logout)

lemma timers_ok_patchLine_store: "timers_ok (patchLine_store st data) = timers_ok st"
  by (simp add: timers_ok_def patchLine_store_def Let_def split: option.splits)

lemma timers_ok_completeOrder_store: "timers_ok (completeOrder_store st ord) = timers_ok st"
  by (simp add: timers_ok_def completeOrder_store_def Let_def split: option.splits)

text \<open>Every reachable state keeps the timers in order: rule induction on the steps.\<close>

lemma reach_timers_ok: "st \<in> reach \<Longrightarrow> timers_ok st"
proof (induction rule: reach.induct)
  case init
  show ?case
    by (simp add: timers_ok_def logout_def stopPolling_def state0_def)
next
  case (do_logout st)
  then show ?case by (simp add: timers_ok_logout)
next
  case (do_bootApp_config st rc)
  then show ?case
    by (auto simp: bootApp_config_def loadConfig_def apiFetch_def timers_ok_logout
        timers_ok_fields)
next
  case (do_bootApp_orders st ro)
  then show ?case
    by (auto simp: bootApp_orders_def loadOrders_def apiFetch_def timers_ok_logout
        timers_ok_fields timers_ok_startPolling)
next
  case (do_syncNow st rs)
  then show ?case by (auto simp: syncNow_def apiFetch_def timers_ok_logout)
next
  case (do_loadOrders st ro)
  then show ?case
    by (auto simp: loadOrders_def apiFetch_def timers_ok_logout timers_ok_fields)
next
  case (do_pollTick st)
  then show ?case by (simp add: pollTick_def split: option.splits)
next
  case (do_openOrder_start st)
  then show ?case by (simp add: openOrder_start_def timers_ok_stopPolling)
next
  case (do_openOrder_opened st rp)
  then show ?case
    by (auto simp: openOrder_opened_def apiFetch_def timers_ok_logout timers_ok_fields
        split: option.splits)
next
  case (do_openOrder_loaded st i rd)
  then show ?case
    by (auto simp: openOrder_loaded_def loadOrderDetail_def apiFetch_def timers_ok_logout
        timers_ok_fields)
next
  case (do_patchLine st rl)
  then show ?case
    by (auto simp: patchLine_def apiFetch_def timers_ok_logout timers_ok_patchLine_store)
next
  case (do_completeOrder st rp)
  then show ?case
    by (auto simp: completeOrder_def apiFetch_def timers_ok_logout
        timers_ok_completeOrder_store split: option.splits)
next
  case (do_closeOrderView st)
  then show ?case
    using timers_ok_startPolling [of "st\<lparr>activeOrderId := None, orderDetail := None,
        orderView_hidden := True, appView_hidden := False\<rparr>"]
    by (simp add: closeOrderView_def timers_ok_fields)
qed

lemma ex_running_reach: "ex_running \<in> reach"
  unfolding ex_running_def by (intro reach.intros)

lemma ex_running_eq:
  "ex_running = \<lparr>config = Some [], orders = ex_board, orderDetail = None, activeOrderId = None,
     pollTimer = Some 1, intervals = [1], lastHandle = 1,
     loginView_hidden = True, appView_hidden = False, orderView_hidden = True\<rparr>"
  by (simp add: ex_running_def bootApp_orders_def bootApp_config_def loadOrders_def
      loadConfig_def apiFetch_def ok_def logout_def startPolling_def stopPolling_def
      state0_def Let_def)

section \<open>Facts about the line list\<close>

lemma length_remove_at: "i < length xs \<Longrightarrow> length (remove_at i xs) = length xs - 1"
  by (simp add: remove_at_def)

lemma nth_remove_at:
  "i < length xs \<Longrightarrow> k < length xs - 1 \<Longrightarrow>
   remove_at i xs ! k = xs ! (if k < i then k else Suc k)"
  by (auto simp: remove_at_def nth_append min_def)

lemma set_remove_at:
  "i < length xs \<Longrightarrow> x \<in> set (remove_at i xs) \<Longrightarrow> \<exists>k < length xs. k \<noteq> i \<and> x = xs ! k"
proof -
  assume i: "i < length xs" and "x \<in> set (remove_at i xs)"
  then obtain k where k: "k < length xs - 1" "x = remove_at i xs ! k"
    by (auto simp: in_set_conv_nth length_remove_at)
  with i have "x = xs ! (if k < i then k else Suc k)"
    by (simp add: nth_remove_at)
  with k show ?thesis
    by (intro exI [of _ "if k < i then k else Suc k"]) auto
qed

text \<open>A search in the whole list that cannot stop at position \<open>i\<close> is a search in the rest.\<close>

lemma findIndex_remove_at:
  assumes i: "i < length xs"
    and j: "j < length xs" "j \<noteq> i" "Q (xs ! j)" "\<forall>k < j. k \<noteq> i \<longrightarrow> \<not> Q (xs ! k)"
  shows "findIndex Q (remove_at i xs) = Some (if i < j then j - 1 else j)"
proof -
  let ?j = "if i < j then j - 1 else j"
  have 1: "?j < length (remove_at i xs)"
    using i j by (auto simp: length_remove_at)
  have 2: "remove_at i xs ! ?j = xs ! j"
    using i j by (auto simp: nth_remove_at)
  have 3: "\<not> Q (remove_at i xs ! k)" if "k < ?j" for k
  proof -
    have "k < length xs - 1" using that 1 i by (simp add: length_remove_at)
    then have "remove_at i xs ! k = xs ! (if k < i then k else Suc k)"
      using i by (simp add: nth_remove_at)
    moreover have "(if k < i then k else Suc k) < j" "(if k < i then k else Suc k) \<noteq> i"
      using that j by (auto split: if_splits)
    ultimately show ?thesis using j(4) by simp
  qed
  from 1 2 3 j(3) show ?thesis
    by (simp only: findIndex_iff) simp
qed

lemma findIndex_remove_at_None:
  assumes "i < length xs" "\<forall>k < length xs. k \<noteq> i \<longrightarrow> \<not> Q (xs ! k)"
  shows "findIndex Q (remove_at i xs) = None"
proof -
  have "\<not> Q x" if "x \<in> set (remove_at i xs)" for x
    using set_remove_at [OF assms(1) that] assms(2) by blast
  then show ?thesis by (simp add: findIndex_None)
qed

lemma find_enumerate_Some:
  assumes "find (\<lambda>(j, e). P e) (filter (\<lambda>(j, e). G e \<and> j \<noteq> i) (enumerate 0 xs)) = Some (j, e)"
  shows "j < length xs \<and> j \<noteq> i \<and> e = xs ! j \<and> G (xs ! j) \<and> P (xs ! j)
     \<and> (\<forall>k < j. k \<noteq> i \<longrightarrow> \<not> (G (xs ! k) \<and> P (xs ! k)))"
proof -
  have eq: "find (\<lambda>(j, e). P e) (filter (\<lambda>(j, e). G e \<and> j \<noteq> i) ys)
      = find (\<lambda>(j, e). G e \<and> j \<noteq> i \<and> P e) ys" for ys :: "(nat \<times> 'a) list"
    by (induction ys) auto
  from assms have "find (\<lambda>(j, e). G e \<and> j \<noteq> i \<and> P e) (enumerate 0 xs) = Some (j, e)"
    by (simp add: eq)
  then obtain n where n: "n < length xs" "enumerate 0 xs ! n = (j, e)"
      "G e \<and> j \<noteq> i \<and> P e"
      "\<forall>m < n. \<not> (case enumerate 0 xs ! m of (j, e) \<Rightarrow> G e \<and> j \<noteq> i \<and> P e)"
    by (auto simp: find_Some_iff)
  from n(1,2) have je: "j = n" "e = xs ! n"
    by (auto simp: nth_enumerate_eq)
  have "\<not> (G (xs ! k) \<and> P (xs ! k))" if "k < j" "k \<noteq> i" for k
    using n(4) [rule_format, of k] that je n(1) by (simp add: nth_enumerate_eq)
  with n je show ?thesis by auto
qed

lemma find_enumerate_None:
  assumes "find (\<lambda>(j, e). P e) (filter (\<lambda>(j, e). G e \<and> j \<noteq> i) (enumerate 0 xs)) = None"
  shows "\<forall>k < length xs. k \<noteq> i \<longrightarrow> \<not> (G (xs ! k) \<and> P (xs ! k))"
proof (intro allI impI)
  fix k
  assume k: "k < length xs" "k \<noteq> i"
  then have "(k, xs ! k) \<in> set (enumerate 0 xs)"
    by (auto simp: in_set_conv_nth nth_enumerate_eq intro!: exI [of _ k])
  with assms k show "\<not> (G (xs ! k) \<and> P (xs ! k))"
    by (auto simp: find_None_iff)
qed

lemma insertBefore_insert_at:
  "i \<noteq> j \<Longrightarrow> insertBefore xs i j = insert_at (if i < j then j - 1 else j) (xs ! i) (remove_at i xs)"
  by (simp add: insertBefore_def)

lemma querySelector_rest:
  assumes i: "i < length xs" and gi: "el_group (xs ! i) \<noteq> g"
  shows "querySelector g xs = Some j \<Longrightarrow>
           i \<noteq> j \<and> findIndex (\<lambda>x. el_group x = g) (remove_at i xs) = Some (if i < j then j - 1 else j)"
    and "querySelector g xs = None \<Longrightarrow> findIndex (\<lambda>x. el_group x = g) (remove_at i xs) = None"
proof -
  assume "querySelector g xs = Some j"
  then have j: "j < length xs" "el_group (xs ! j) = g" "\<forall>k < j. el_group (xs ! k) \<noteq> g"
    by (auto simp: querySelector_def dest: findIndex_Some)
  with gi have "i \<noteq> j" by auto
  moreover from this j have "findIndex (\<lambda>x. el_group x = g) (remove_at i xs)
      = Some (if i < j then j - 1 else j)"
    by (intro findIndex_remove_at [OF i]) auto
  ultimately show "i \<noteq> j \<and> findIndex (\<lambda>x. el_group x = g) (remove_at i xs)
      = Some (if i < j then j - 1 else j)"
    by simp
next
  assume "querySelector g xs = None"
  then have "\<forall>k < length xs. el_group (xs ! k) \<noteq> g"
    by (simp add: querySelector_def findIndex_None)
  then show "findIndex (\<lambda>x. el_group x = g) (remove_at i xs) = None"
    by (intro findIndex_remove_at_None [OF i]) simp
qed

lemma layout_ok_remove_at:
  assumes "layout_ok xs" "i < length xs"
  shows "layout_ok (remove_at i xs)"
proof -
  have xs: "xs = take i xs @ xs ! i # drop (Suc i) xs"
    using assms(2) by (rule id_take_nth_drop)
  from assms(1) have "layout_ok (take i xs @ xs ! i # drop (Suc i) xs)"
    using xs by simp
  then show ?thesis
    unfolding layout_ok_def remove_at_def by (auto simp: sorted_append split: if_splits)
qed

lemma insert_at_layout:
  assumes ok: "layout_ok xs"
    and e: "el_group e = Incomplete"
    and before: "\<forall>x \<in> set (take p xs). el_group x = Incomplete \<and> el_sortIndex x \<le> el_sortIndex e"
    and after: "\<forall>x \<in> set (drop p xs). el_group x = Incomplete \<longrightarrow> el_sortIndex e < el_sortIndex x"
  shows "layout_ok (insert_at p e xs)"
proof -
  define A B where "A = take p xs" and "B = drop p xs"
  have xs: "xs = A @ B" by (simp add: A_def B_def)
  from ok have "layout_ok (A @ B)" by (simp add: xs)
  with e before after show ?thesis
    unfolding insert_at_def layout_ok_def A_def [symmetric] B_def [symmetric]
    by (fastforce simp: sorted_append)
qed

lemma place_before_larger:
  assumes ok: "layout_ok xs"
    and p: "findIndex (\<lambda>x. el_group x = Incomplete \<and> s < el_sortIndex x) xs = Some p"
  shows "(\<forall>x \<in> set (take p xs). el_group x = Incomplete \<and> el_sortIndex x \<le> s)
       \<and> (\<forall>x \<in> set (drop p xs). el_group x = Incomplete \<longrightarrow> s < el_sortIndex x)"
proof -
  from findIndex_Some [OF p]
  have pl: "p < length xs" and pq: "el_group (xs ! p) = Incomplete" "s < el_sortIndex (xs ! p)"
    and least: "\<forall>k < p. \<not> (el_group (xs ! k) = Incomplete \<and> s < el_sortIndex (xs ! k))"
    by auto
  from ok have sr: "sorted (map (\<lambda>e. rank (el_group e)) xs)"
    by (simp add: layout_ok_def)
  have before: "el_group x = Incomplete \<and> el_sortIndex x \<le> s" if "x \<in> set (take p xs)" for x
  proof -
    from that pl obtain k where k: "k < p" "x = xs ! k"
      by (auto simp: in_set_conv_nth)
    from sorted_nth_mono [OF sr, of k p] k pl pq have "rank (el_group x) \<le> 0"
      by simp
    then have "el_group x = Incomplete" by (cases "el_group x") simp_all
    with least k show ?thesis by auto
  qed
  have xs: "xs = take p xs @ xs ! p # drop (Suc p) xs"
    using pl by (rule id_take_nth_drop)
  from ok have "sorted (map el_sortIndex (filter (\<lambda>e. el_group e = Incomplete)
      (take p xs @ xs ! p # drop (Suc p) xs)))"
    using xs by (simp add: layout_ok_def)
  with pq have ge: "\<forall>y \<in> set (drop (Suc p) xs). el_group y = Incomplete \<longrightarrow>
      el_sortIndex (xs ! p) \<le> el_sortIndex y"
    by (auto simp: sorted_append)
  have after: "s < el_sortIndex x" if "x \<in> set (drop p xs)" "el_group x = Incomplete" for x
  proof -
    from that(1) pl have "x = xs ! p \<or> x \<in> set (drop (Suc p) xs)"
      by (simp flip: Cons_nth_drop_Suc)
    with ge pq that(2) show ?thesis by auto
  qed
  from before after show ?thesis by blast
qed

lemma place_before_group:
  assumes ok: "layout_ok xs"
    and none: "findIndex (\<lambda>x. el_group x = Incomplete \<and> s < el_sortIndex x) xs = None"
    and p: "findIndex (\<lambda>x. el_group x = g) xs = Some p"
    and g: "g \<noteq> Incomplete"
    and lower: "\<forall>x \<in> set xs. rank (el_group x) < rank g \<longrightarrow> el_group x = Incomplete"
  shows "(\<forall>x \<in> set (take p xs). el_group x = Incomplete \<and> el_sortIndex x \<le> s)
       \<and> (\<forall>x \<in> set (drop p xs). el_group x = Incomplete \<longrightarrow> s < el_sortIndex x)"
proof -
  from findIndex_Some [OF p]
  have pl: "p < length xs" and pg: "el_group (xs ! p) = g"
    and least: "\<forall>k < p. el_group (xs ! k) \<noteq> g"
    by auto
  from ok have sr: "sorted (map (\<lambda>e. rank (el_group e)) xs)"
    by (simp add: layout_ok_def)
  have inj: "rank a = rank b \<Longrightarrow> a = b" for a b
    by (cases a; cases b) simp_all
  have before: "el_group x = Incomplete \<and> el_sortIndex x \<le> s" if "x \<in> set (take p xs)" for x
  proof -
    from that pl obtain k where k: "k < p" "x = xs ! k"
      by (auto simp: in_set_conv_nth)
    from sorted_nth_mono [OF sr, of k p] k pl pg have "rank (el_group x) \<le> rank g"
      by simp
    moreover from least k inj have "rank (el_group x) \<noteq> rank g" by auto
    ultimately have "rank (el_group x) < rank g" by simp
    moreover from k pl have "x \<in> set xs" by simp
    ultimately have "el_group x = Incomplete" using lower by simp
    moreover from none \<open>x \<in> set xs\<close> have "\<not> (el_group x = Incomplete \<and> s < el_sortIndex x)"
      by (simp add: findIndex_None)
    ultimately show ?thesis by auto
  qed
  have after: "el_group x \<noteq> Incomplete" if "x \<in> set (drop p xs)" for x
  proof -
    from that obtain k where k0: "k < length xs - p" "x = xs ! (p + k)"
      by (auto simp: in_set_conv_nth)
    then have k: "p + k < length xs" "x = xs ! (p + k)"
      by simp_all
    from sorted_nth_mono [OF sr, of p "p + k"] k pg have "rank g \<le> rank (el_group x)"
      by simp
    with g show ?thesis by (cases g; cases "el_group x") simp_all
  qed
  from before after show ?thesis by blast
qed

lemma moveLineToIncompletePosition_place:
  assumes i: "i < length xs"
    and gi: "el_group (xs ! i) = Incomplete"
    and ok: "layout_ok (remove_at i xs)"
  shows "\<exists>p. moveLineToIncompletePosition xs i = insert_at p (xs ! i) (remove_at i xs)
     \<and> (\<forall>x \<in> set (take p (remove_at i xs)).
           el_group x = Incomplete \<and> el_sortIndex x \<le> el_sortIndex (xs ! i))
     \<and> (\<forall>x \<in> set (drop p (remove_at i xs)).
           el_group x = Incomplete \<longrightarrow> el_sortIndex (xs ! i) < el_sortIndex x)"
proof -
  let ?s = "el_sortIndex (xs ! i)"
  let ?rest = "remove_at i xs"
  let ?Q = "\<lambda>x. el_group x = Incomplete \<and> ?s < el_sortIndex x"
  let ?found = "find (\<lambda>(j, e). ?s < el_sortIndex e)
      (filter (\<lambda>(j, e). el_group e = Incomplete \<and> j \<noteq> i) (enumerate 0 xs))"
  show ?thesis
  proof (cases ?found)
    case (Some je)
    obtain j e where je: "je = (j, e)" by (cases je)
    from find_enumerate_Some [OF Some [unfolded je]]
    have j: "j < length xs" "j \<noteq> i" "?Q (xs ! j)" "\<forall>k < j. k \<noteq> i \<longrightarrow> \<not> ?Q (xs ! k)"
      by auto
    have fi: "findIndex ?Q ?rest = Some (if i < j then j - 1 else j)"
      using i j by (rule findIndex_remove_at)
    have mv: "moveLineToIncompletePosition xs i
        = insert_at (if i < j then j - 1 else j) (xs ! i) ?rest"
      using Some je j(2) by (simp add: moveLineToIncompletePosition_def insertBefore_insert_at)
    from place_before_larger [OF ok fi] mv show ?thesis by blast
  next
    case None
    from find_enumerate_None [OF None]
    have "\<forall>k < length xs. k \<noteq> i \<longrightarrow> \<not> ?Q (xs ! k)" by simp
    with i have none: "findIndex ?Q ?rest = None"
      by (rule findIndex_remove_at_None)
    show ?thesis
    proof (cases "querySelector Complete xs")
      case (Some c)
      from querySelector_rest(1) [OF i _ Some] gi
      have c: "i \<noteq> c"
        "findIndex (\<lambda>x. el_group x = Complete) ?rest = Some (if i < c then c - 1 else c)"
        by simp_all
      have mv: "moveLineToIncompletePosition xs i
          = insert_at (if i < c then c - 1 else c) (xs ! i) ?rest"
        using None Some c(1)
        by (simp add: moveLineToIncompletePosition_def insertBefore_insert_at)
      have "\<forall>x \<in> set ?rest. rank (el_group x) < rank Complete \<longrightarrow> el_group x = Incomplete"
      proof
        fix x show "rank (el_group x) < rank Complete \<longrightarrow> el_group x = Incomplete"
          by (cases "el_group x") simp_all
      qed
      from place_before_group [OF ok none c(2) _ this] mv show ?thesis by blast
    next
      case noC: None
      from querySelector_rest(2) [OF i _ noC] gi
      have restC: "findIndex (\<lambda>x. el_group x = Complete) ?rest = None" by simp
      show ?thesis
      proof (cases "querySelector Removed xs")
        case (Some r)
        from querySelector_rest(1) [OF i _ Some] gi
        have r: "i \<noteq> r"
          "findIndex (\<lambda>x. el_group x = Removed) ?rest = Some (if i < r then r - 1 else r)"
          by simp_all
        have mv: "moveLineToIncompletePosition xs i
            = insert_at (if i < r then r - 1 else r) (xs ! i) ?rest"
          using None noC Some r(1)
          by (simp add: moveLineToIncompletePosition_def insertBefore_insert_at)
        have "\<forall>x \<in> set ?rest. rank (el_group x) < rank Removed \<longrightarrow> el_group x = Incomplete"
        proof
          fix x assume "x \<in> set ?rest"
          with restC have "el_group x \<noteq> Complete" by (simp add: findIndex_None)
          then show "rank (el_group x) < rank Removed \<longrightarrow> el_group x = Incomplete"
            by (cases "el_group x") simp_all
        qed
        from place_before_group [OF ok none r(2) _ this] mv show ?thesis by blast
      next
        case noR: None
        from querySelector_rest(2) [OF i _ noR] gi
        have restR: "findIndex (\<lambda>x. el_group x = Removed) ?rest = None" by simp
        have mv: "moveLineToIncompletePosition xs i = insert_at (length ?rest) (xs ! i) ?rest"
          using None noC noR
          by (simp add: moveLineToIncompletePosition_def appendChild_def insert_at_def)
        have "el_group x = Incomplete \<and> el_sortIndex x \<le> ?s" if "x \<in> set ?rest" for x
        proof -
          from that restC restR have "el_group x \<noteq> Complete" "el_group x \<noteq> Removed"
            by (simp_all add: findIndex_None)
          then have "el_group x = Incomplete" by (cases "el_group x") simp_all
          moreover from none that have "\<not> ?Q x" by (simp add: findIndex_None)
          ultimately show ?thesis by auto
        qed
        with mv show ?thesis by (intro exI [of _ "length ?rest"]) simp
      qed
    qed
  qed
qed

lemma el_group_renderLine:
  "el_group (renderLine l) = groupOf l (isLineDone l)"
  "el_sortIndex (renderLine l) = sortIndexOf l"
  by (simp_all add: renderLine_def Let_def)

text \<open>A list that \<open>renderOrderDetail\<close> produced has the layout.\<close>

lemma layout_ok_renderOrderDetail: "layout_ok (renderOrderDetail ls)"
proof -
  define I where "I = sort_key sortIndexOf (filter (\<lambda>l. \<not> is_removed l \<and> \<not> isLineDone l) ls)"
  define C where "C = sort_key sortIndexOf (filter (\<lambda>l. \<not> is_removed l \<and> isLineDone l) ls)"
  define R where "R = sort_key sortIndexOf (filter is_removed ls)"
  have r: "renderOrderDetail ls = map renderLine I @ map renderLine C @ map renderLine R"
    by (simp add: renderOrderDetail_def I_def C_def R_def)
  have gI: "\<forall>l \<in> set I. el_group (renderLine l) = Incomplete"
    and gC: "\<forall>l \<in> set C. el_group (renderLine l) = Complete"
    and gR: "\<forall>l \<in> set R. el_group (renderLine l) = Removed"
    by (auto simp: I_def C_def R_def el_group_renderLine groupOf_def)
  have fI: "filter (\<lambda>e. el_group e = Incomplete) (map renderLine I) = map renderLine I"
    using gI by (simp add: filter_map o_def)
  have fC: "filter (\<lambda>e. el_group e = Incomplete) (map renderLine C) = []"
    using gC by (simp add: filter_map o_def)
  have fR: "filter (\<lambda>e. el_group e = Incomplete) (map renderLine R) = []"
    using gR by (simp add: filter_map o_def)
  have sI: "sorted (map el_sortIndex (map renderLine I))"
    by (simp add: o_def el_group_renderLine I_def)
  have rI: "map (\<lambda>e. rank (el_group e)) (map renderLine I) = replicate (length I) 0"
    using gI by (simp add: map_replicate_const [symmetric])
  have rC: "map (\<lambda>e. rank (el_group e)) (map renderLine C) = replicate (length C) 1"
    using gC by (simp add: map_replicate_const [symmetric])
  have rR: "map (\<lambda>e. rank (el_group e)) (map renderLine R) = replicate (length R) 2"
    using gR by (simp add: map_replicate_const [symmetric])
  have ranks: "sorted (map (\<lambda>e. rank (el_group e)) (renderOrderDetail ls))"
    unfolding r map_append rI rC rR by (simp add: sorted_append)
  show ?thesis
    unfolding layout_ok_def using ranks sI by (simp add: r fI fC fR)
qed

lemma ex_render: "renderOrderDetail ex_lines =
  [\<lparr>el_lineId = 2, el_sortIndex = 1, el_done = False, el_group = Incomplete\<rparr>,
   \<lparr>el_lineId = 1, el_sortIndex = 3, el_done = False, el_group = Incomplete\<rparr>,
   \<lparr>el_lineId = 3, el_sortIndex = 2, el_done = True, el_group = Complete\<rparr>,
   \<lparr>el_lineId = 4, el_sortIndex = 0, el_done = False, el_group = Removed\<rparr>]"
  by (simp add: renderOrderDetail_def ex_lines_def no_line_def renderLine_def isLineDone_def
      num_or0_def js_le_def js_ge_def EPS_def tol6_def sortIndexOf_def groupOf_def)

section \<open>Facts about numerals\<close>

subsection \<open>Digits\<close>














subsection \<open>Trailing and leading zeros\<close>

lemma stripZeros_snoc:
  "stripZeros (xs @ [c]) = (if c = CHR ''0'' then stripZeros xs else xs @ [c])"
  by (simp add: stripZeros_def)

lemma stripZeros_Nil: "stripZeros [] = []"
  by (simp add: stripZeros_def)


lemma stripZeros_decomp: "\<exists>t. xs = stripZeros xs @ replicate t CHR ''0''"
proof (induction xs rule: rev_induct)
  case Nil
  show ?case by (simp add: stripZeros_Nil)
next
  case (snoc c xs)
  show ?case
  proof (cases "c = CHR ''0''")
    case True
    from snoc obtain t where t: "xs = stripZeros xs @ replicate t CHR ''0''" by blast
    have "xs @ [c] = stripZeros xs @ replicate (Suc t) CHR ''0''"
      using True by (subst t) (simp add: replicate_append_same)
    moreover have "stripZeros (xs @ [c]) = stripZeros xs"
      using True by (simp add: stripZeros_snoc)
    ultimately have "xs @ [c] = stripZeros (xs @ [c]) @ replicate (Suc t) CHR ''0''"
      by simp
    then show ?thesis by (rule exI)
  next
    case False
    then have "xs @ [c] = stripZeros (xs @ [c]) @ replicate 0 CHR ''0''"
      by (simp add: stripZeros_snoc)
    then show ?thesis by blast
  qed
qed




lemma set_stripZeros: "set (stripZeros xs) \<subseteq> set xs"
proof -
  from stripZeros_decomp [of xs] obtain t where "xs = stripZeros xs @ replicate t CHR ''0''" ..
  then have "set xs = set (stripZeros xs) \<union> set (replicate t CHR ''0'')"
    by (metis set_append)
  then show ?thesis by blast
qed













subsection \<open>The numeral of a number between 1e-6 and 1e21\<close>







subsection \<open>The exponent form\<close>






lemma digits_1: "digits (Suc 0) = ''1''"
  by (subst digits.simps) (simp add: digit_char_def)



subsection \<open>Reading a numeral back\<close>








subsection \<open>Clamping and rounding\<close>















lemma clampv_nonneg: "mx \<noteq> NaN \<Longrightarrow> 0 \<le> clampv mx x"
  by (cases mx) (simp_all add: clampv_def)



subsection \<open>Examples\<close>

lemma digits_examples: "digits 25 = ''25''" "digits 125 = ''125''" "digits 3 = ''3''"
  "digits 13 = ''13''" "digits 14 = ''14''"
  by (simp_all add: digits.simps digit_char_def)

lemma toString_pos_examples:
  "toString_pos 25 (Suc 0) = ''2.5''" "toString_pos 125 2 = ''1.25''"
  "toString_pos 3 0 = ''3''" "toString_pos (Suc 0) (Suc 0) = ''0.1''"
  by (simp_all add: toString_pos_def digits_examples digits_1 stripZeros_def Let_def)


lemma inferStep_static_examples:
  "inferStep_static (Fin 25 1) = Fin 1 1" "inferStep_static (Fin 3 0) = Fin 1 0"
  "inferStep_static (Fin 125 2) = Fin 1 2"
  by (simp_all add: inferStep_static_def toString_pos_examples split1_def stripZeros_def Let_def
      js_le_def EPS_def)


section \<open>C1: change against the baseline\<close>




section \<open>C2: the step of an ordered quantity\<close>




section \<open>C3: clamping and rounding twice\<close>



section \<open>C4: a line patch leaves the other lines and orders alone\<close>

text \<open>
  C4: merging the answer to a patch of line X changes, in the order detail, the order and
  the first line with the id of X only, and in the board cache the entry of that order
  only, there the order and the first preview line with the id of X.  Every line with
  another id, in the order detail and in every entry of the board, every entry of another
  order, and the rest of the state are equal before and after.
\<close>

theorem patchLine_frame:
  fixes st :: state and data :: patch_data
  defines "st' \<equiv> patchLine_store st data"
  shows "config st' = config st \<and> activeOrderId st' = activeOrderId st
       \<and> pollTimer st' = pollTimer st
       \<and> (orderDetail st = None \<longrightarrow> orderDetail st' = None)
       \<and> (\<forall>od. orderDetail st = Some od \<longrightarrow>
            (\<exists>od'. orderDetail st' = Some od' \<and> w_order od' = Some (d_order data)
               \<and> length (w_lines od') = length (w_lines od)
               \<and> (\<forall>i < length (w_lines od). lid (w_lines od ! i) \<noteq> lid (d_line data) \<longrightarrow>
                     w_lines od' ! i = w_lines od ! i)))
       \<and> length (orders st') = length (orders st)
       \<and> (\<forall>j < length (orders st). \<not> has_oid (oid (d_order data)) (orders st ! j) \<longrightarrow>
             orders st' ! j = orders st ! j)
       \<and> (\<forall>j < length (orders st).
             length (w_lines (orders st' ! j)) = length (w_lines (orders st ! j))
           \<and> (\<forall>i < length (w_lines (orders st ! j)).
                 lid (w_lines (orders st ! j) ! i) \<noteq> lid (d_line data) \<longrightarrow>
                 w_lines (orders st' ! j) ! i = w_lines (orders st ! j) ! i))"
proof -
  have other: "config st' = config st \<and> activeOrderId st' = activeOrderId st
       \<and> pollTimer st' = pollTimer st"
    by (simp add: st'_def patchLine_store_def Let_def split: option.splits)
  have od: "\<exists>od'. orderDetail st' = Some od' \<and> w_order od' = Some (d_order data)
               \<and> length (w_lines od') = length (w_lines od)
               \<and> (\<forall>i < length (w_lines od). lid (w_lines od ! i) \<noteq> lid (d_line data) \<longrightarrow>
                     w_lines od' ! i = w_lines od ! i)"
    if "orderDetail st = Some od" for od
    using that by (simp add: st'_def patchLine_store_orderDetail length_put_line nth_put_line)
  have len: "length (orders st') = length (orders st)"
    by (simp add: st'_def patchLine_store_orders split: option.splits)
  have others: "orders st' ! j = orders st ! j"
    if "j < length (orders st)" "\<not> has_oid (oid (d_order data)) (orders st ! j)" for j
    using that
    by (auto simp: st'_def patchLine_store_orders nth_list_update split: option.splits
        dest!: findIndex_Some)
  have lines: "length (w_lines (orders st' ! j)) = length (w_lines (orders st ! j))
           \<and> (\<forall>i < length (w_lines (orders st ! j)).
                 lid (w_lines (orders st ! j) ! i) \<noteq> lid (d_line data) \<longrightarrow>
                 w_lines (orders st' ! j) ! i = w_lines (orders st ! j) ! i)"
    if "j < length (orders st)" for j
  proof (cases "findIndex (has_oid (oid (d_order data))) (orders st)")
    case None
    then show ?thesis by (simp add: st'_def patchLine_store_orders)
  next
    case (Some k)
    from findIndex_Some [OF Some] have "k < length (orders st)" by simp
    with Some that show ?thesis
      by (cases "j = k") (simp_all add: st'_def patchLine_store_orders length_put_line nth_put_line)
  qed
  from other od len others lines show ?thesis
    by (simp add: st'_def patchLine_store_orderDetail)
qed

theorem patchLine_frame_witness:
  "orders (patchLine_store ex_state ex_patch) ! 1 = ex_board ! 1
   \<and> w_lines (orders (patchLine_store ex_state ex_patch) ! 0) ! 1 = ex_line2
   \<and> (\<exists>od'. orderDetail (patchLine_store ex_state ex_patch) = Some od'
          \<and> w_order od' = Some (d_order ex_patch) \<and> w_lines od' ! 1 = ex_line2)"
  using patchLine_frame [of ex_state ex_patch]
  by (simp add: ex_state_def ex_board_def ex_patch_def ex_order1_def ex_order2_def
      ex_line1_def ex_line2_def state0_def no_order_def no_line_def has_oid_def patchLine_store_def Let_def)

section \<open>C5: order detail and board cache agree\<close>



section \<open>C6: order completion\<close>



section \<open>C7: an unauthorized response ends the session\<close>

text \<open>
  C7: in every reachable state, a response with status 401 to a request of the API layer
  makes \<open>apiFetch\<close> run \<open>logout\<close> and then throw: the state that the caller of \<open>apiFetch\<close>
  finds has no configuration, no orders, no order detail, no active order, no poll timer
  (none stored and none live), and shows the login view only.
\<close>

theorem unauthorized_tears_down:
  assumes "st \<in> reach" and "status r = 401"
  shows "apiFetch st r = (logout st, Inl Unauthorized) \<and> torn_down (logout st)"
proof -
  from assms(1) have "timers_ok st" by (rule reach_timers_ok)
  then have "intervals (logout st) = [] \<and> pollTimer (logout st) = None"
    by (simp add: timers_ok_logout)
  moreover have "config (logout st) = None \<and> orders (logout st) = []
      \<and> orderDetail (logout st) = None \<and> activeOrderId (logout st) = None
      \<and> \<not> loginView_hidden (logout st) \<and> appView_hidden (logout st)
      \<and> orderView_hidden (logout st)"
    by (simp add: logout_def stopPolling_def Let_def split: option.splits)
  ultimately show ?thesis
    using assms(2) by (simp add: apiFetch_def torn_down_def)
qed

theorem unauthorized_tears_down_witness:
  "ex_running \<in> reach \<and> intervals ex_running = [1] \<and> orders ex_running = ex_board
   \<and> fst (apiFetch ex_running \<lparr>status = 401, body = ()\<rparr>)
       = state0\<lparr>lastHandle := 1, appView_hidden := True, orderView_hidden := True\<rparr>
   \<and> snd (apiFetch ex_running \<lparr>status = 401, body = ()\<rparr>) = Inl Unauthorized
   \<and> torn_down (fst (apiFetch ex_running \<lparr>status = 401, body = ()\<rparr>))"
proof -
  have a: "intervals ex_running = [1]" "orders ex_running = ex_board"
    by (simp_all add: ex_running_eq)
  have b: "logout ex_running
      = state0\<lparr>lastHandle := 1, appView_hidden := True, orderView_hidden := True\<rparr>"
    by (simp add: ex_running_eq logout_def stopPolling_def state0_def Let_def)
  from unauthorized_tears_down [OF ex_running_reach, of "\<lparr>status = 401, body = ()\<rparr>"]
  have "apiFetch ex_running \<lparr>status = 401, body = ()\<rparr> = (logout ex_running, Inl Unauthorized)"
    "torn_down (logout ex_running)"
    by simp_all
  with ex_running_reach a b show ?thesis by simp
qed

section \<open>C8: at most one poll timer\<close>

text \<open>
  C8: in every reachable state at most one interval timer is live.  \<open>startPolling\<close> leaves
  exactly the timer it creates and none of the earlier ones, the first part of \<open>openOrder\<close>
  leaves none, \<open>closeOrderView\<close> leaves exactly one, and any number of cycles of opening and
  closing leaves at most one.
\<close>

theorem one_poll_timer:
  assumes "st \<in> reach"
  shows "length (intervals st) \<le> 1
       \<and> intervals (startPolling st) = [Suc (lastHandle st)]
       \<and> (\<forall>h \<in> set (intervals st). h \<notin> set (intervals (startPolling st)))
       \<and> intervals (openOrder_start st) = []
       \<and> length (intervals (closeOrderView st)) = 1
       \<and> length (intervals (((closeOrderView \<circ> openOrder_start) ^^ n) st)) \<le> 1"
proof -
  from assms have ok: "timers_ok st" by (rule reach_timers_ok)
  have 1: "length (intervals st) \<le> 1"
    using ok by (auto simp: timers_ok_def split: option.splits)
  have 2: "intervals (startPolling st) = [Suc (lastHandle st)]"
    using ok by (simp add: timers_ok_startPolling)
  have 3: "\<forall>h \<in> set (intervals st). h \<notin> set (intervals (startPolling st))"
    using ok by (auto simp: 2 timers_ok_def split: option.splits)
  have 4: "intervals (openOrder_start st) = []"
    using ok by (simp add: openOrder_start_def timers_ok_stopPolling)
  have "closeOrderView st \<in> reach"
    using assms by (rule reach.do_closeOrderView)
  have 5: "length (intervals (closeOrderView st)) = 1"
    using timers_ok_startPolling [of "st\<lparr>activeOrderId := None, orderDetail := None,
        orderView_hidden := True, appView_hidden := False\<rparr>"] ok
    by (simp add: closeOrderView_def timers_ok_fields)
  have "((closeOrderView \<circ> openOrder_start) ^^ n) st \<in> reach"
    using assms by (induction n) (auto intro: reach.intros)
  then have "timers_ok (((closeOrderView \<circ> openOrder_start) ^^ n) st)"
    by (rule reach_timers_ok)
  then have 6: "length (intervals (((closeOrderView \<circ> openOrder_start) ^^ n) st)) \<le> 1"
    by (auto simp: timers_ok_def split: option.splits)
  from 1 2 3 4 5 6 show ?thesis by blast
qed

theorem one_poll_timer_witness:
  "ex_running \<in> reach \<and> intervals ex_running = [1]
   \<and> intervals (startPolling ex_running) = [2]
   \<and> intervals (openOrder_start ex_running) = []
   \<and> intervals (closeOrderView (openOrder_start ex_running)) = [2]
   \<and> length (intervals (((closeOrderView \<circ> openOrder_start) ^^ 3) ex_running)) \<le> 1"
proof -
  have a: "intervals ex_running = [1]" "lastHandle ex_running = 1"
    by (simp_all add: ex_running_eq)
  have b: "intervals (closeOrderView (openOrder_start ex_running)) = [2]"
    by (simp add: ex_running_eq openOrder_start_def closeOrderView_def startPolling_def
        stopPolling_def Let_def)
  from one_poll_timer [OF ex_running_reach, of 3] ex_running_reach a b
  show ?thesis by simp
qed

section \<open>C9: a line that is no longer done returns to its place\<close>

text \<open>
  C9: let the list have the layout of a rendered order detail, and let the update of a
  line that is not removed find its element done while the line is not done any more.
  Then \<open>updateLineUI\<close> takes the element out and puts it back, as an incomplete one, after
  incomplete elements whose sort index is at most its own and before every incomplete
  element with a greater sort index; the other elements keep their order, and the new list
  has the layout again, so the incomplete group is in ascending order of \<open>sort_index\<close>.
\<close>

theorem updateLineUI_reinsert:
  assumes found: "findIndex (\<lambda>e. el_lineId e = lid l) els = Some i"
    and was: "el_done (els ! i)"
    and now: "\<not> isLineDone l"
    and nrem: "\<not> is_removed l"
    and ok: "layout_ok els"
  shows "\<exists>A B. updateLineUI els l
               = A @ [(els ! i)\<lparr>el_done := False, el_sortIndex := sortIndexOf l,
                                el_group := Incomplete\<rparr>] @ B
     \<and> A @ B = remove_at i els
     \<and> (\<forall>x \<in> set A. el_group x = Incomplete \<and> el_sortIndex x \<le> sortIndexOf l)
     \<and> (\<forall>x \<in> set B. el_group x = Incomplete \<longrightarrow> sortIndexOf l < el_sortIndex x)
     \<and> layout_ok (updateLineUI els l)"
proof -
  let ?el = "(els ! i)\<lparr>el_done := False, el_sortIndex := sortIndexOf l, el_group := Incomplete\<rparr>"
  let ?els1 = "els[i := ?el]"
  from findIndex_Some [OF found] have i: "i < length els" by simp
  have upd: "updateLineUI els l = moveLineToIncompletePosition ?els1 i"
    using found was now nrem by (simp add: updateLineUI_def Let_def groupOf_def)
  have rest: "remove_at i ?els1 = remove_at i els"
    by (simp add: remove_at_def)
  have nth: "?els1 ! i = ?el" using i by simp
  have okr: "layout_ok (remove_at i ?els1)"
    using ok i by (simp add: rest layout_ok_remove_at)
  from moveLineToIncompletePosition_place [of i ?els1, OF _ _ okr] i nth
  obtain p where p: "moveLineToIncompletePosition ?els1 i = insert_at p ?el (remove_at i els)"
    "\<forall>x \<in> set (take p (remove_at i els)). el_group x = Incomplete \<and> el_sortIndex x \<le> sortIndexOf l"
    "\<forall>x \<in> set (drop p (remove_at i els)). el_group x = Incomplete \<longrightarrow> sortIndexOf l < el_sortIndex x"
    by (auto simp: rest)
  have "layout_ok (insert_at p ?el (remove_at i els))"
    using ok i p(2,3) by (intro insert_at_layout) (simp_all add: layout_ok_remove_at)
  with p upd show ?thesis
    by (intro exI [of _ "take p (remove_at i els)"] exI [of _ "drop p (remove_at i els)"])
      (simp add: insert_at_def)
qed

theorem updateLineUI_reinsert_witness:
  "updateLineUI (renderOrderDetail ex_lines)
     (no_line\<lparr>lid := 3, qty_ordered := Some (Fin 5 0), qty_collected := Some (Fin 4 0),
        sort_index := Some 2\<rparr>)
   = [\<lparr>el_lineId = 2, el_sortIndex = 1, el_done = False, el_group = Incomplete\<rparr>,
      \<lparr>el_lineId = 3, el_sortIndex = 2, el_done = False, el_group = Incomplete\<rparr>,
      \<lparr>el_lineId = 1, el_sortIndex = 3, el_done = False, el_group = Incomplete\<rparr>,
      \<lparr>el_lineId = 4, el_sortIndex = 0, el_done = False, el_group = Removed\<rparr>]
   \<and> layout_ok (updateLineUI (renderOrderDetail ex_lines)
     (no_line\<lparr>lid := 3, qty_ordered := Some (Fin 5 0), qty_collected := Some (Fin 4 0),
        sort_index := Some 2\<rparr>))"
proof -
  let ?l = "no_line\<lparr>lid := 3, qty_ordered := Some (Fin 5 0), qty_collected := Some (Fin 4 0),
        sort_index := Some 2\<rparr>"
  have found: "findIndex (\<lambda>e. el_lineId e = lid ?l) (renderOrderDetail ex_lines) = Some 2"
    by (simp add: ex_render no_line_def)
  have was: "el_done (renderOrderDetail ex_lines ! 2)"
    by (simp add: ex_render)
  have now: "\<not> isLineDone ?l"
    by (simp add: isLineDone_def no_line_def num_or0_def js_le_def js_ge_def EPS_def tol6_def)
  have nrem: "\<not> is_removed ?l"
    by (simp add: no_line_def)
  from updateLineUI_reinsert [OF found was now nrem layout_ok_renderOrderDetail]
  obtain A B where AB: "updateLineUI (renderOrderDetail ex_lines) ?l
               = A @ [(renderOrderDetail ex_lines ! 2)\<lparr>el_done := False,
                    el_sortIndex := sortIndexOf ?l, el_group := Incomplete\<rparr>] @ B"
     "A @ B = remove_at 2 (renderOrderDetail ex_lines)"
     "\<forall>x \<in> set A. el_group x = Incomplete \<and> el_sortIndex x \<le> sortIndexOf ?l"
     "\<forall>x \<in> set B. el_group x = Incomplete \<longrightarrow> sortIndexOf ?l < el_sortIndex x"
     and ok: "layout_ok (updateLineUI (renderOrderDetail ex_lines) ?l)"
    by blast
  have s: "sortIndexOf ?l = 2" by (simp add: sortIndexOf_def no_line_def)
  have rest: "remove_at 2 (renderOrderDetail ex_lines) =
     [\<lparr>el_lineId = 2, el_sortIndex = 1, el_done = False, el_group = Incomplete\<rparr>,
      \<lparr>el_lineId = 1, el_sortIndex = 3, el_done = False, el_group = Incomplete\<rparr>,
      \<lparr>el_lineId = 4, el_sortIndex = 0, el_done = False, el_group = Removed\<rparr>]"
    by (simp add: ex_render remove_at_def)
  from AB(2) rest have "A = [] \<or> (\<exists>a. A = [a]) \<or> (\<exists>a b. A = [a, b]) \<or> (\<exists>a b c. A = [a, b, c])"
    by (cases A; cases "tl A"; cases "tl (tl A)"; cases "tl (tl (tl A))") auto
  with AB(2,3,4) rest s have "A = [\<lparr>el_lineId = 2, el_sortIndex = 1, el_done = False, el_group = Incomplete\<rparr>]
     \<and> B = [\<lparr>el_lineId = 1, el_sortIndex = 3, el_done = False, el_group = Incomplete\<rparr>,
      \<lparr>el_lineId = 4, el_sortIndex = 0, el_done = False, el_group = Removed\<rparr>]"
    by auto
  with AB(1) ok s show ?thesis by (simp add: ex_render)
qed

section \<open>C10: the poll tick while an order is open\<close>




end
